theory Spec2Isabelle
  imports Main "HOL-Library.Char_ord" "HOL-Library.List_Lexorder"
begin

section \<open>Data model of \<open>ftp_to_sheets.py\<close>\<close>

text \<open>
  A modification time is a Python \<open>datetime\<close> in UTC. The type is bounded below by
  \<open>datetime.min\<close>, so a time is modelled by its distance from \<open>datetime.min\<close>:
  a natural number, with \<open>datetime.min\<close> itself at \<open>0\<close>. (The upper bound
  \<open>datetime.max\<close> plays no part in the script and is left out.)
\<close>

type_synonym datetime = nat

definition datetime_min :: datetime where
  "datetime_min = 0"

text \<open>
  A candidate is the tuple \<open>(n, mdtm, size)\<close> appended at line 109: the name, the result
  of \<open>get_mdtm\<close> (a time or \<open>None\<close>) and the result of \<open>ftp.size\<close> (an integer or
  \<open>None\<close>). Names are strings compared as Python compares \<open>str\<close>: lexicographically,
  character by character. (A character outside ASCII stands as its UTF-8 bytes, whose
  order is the order of the code points.)
\<close>

type_synonym candidate = "string \<times> datetime option \<times> nat option"

definition c_name :: "candidate \<Rightarrow> string" where
  "c_name t = fst t"

definition c_mdtm :: "candidate \<Rightarrow> datetime option" where
  "c_mdtm t = fst (snd t)"

definition c_size :: "candidate \<Rightarrow> nat option" where
  "c_size t = snd (snd t)"

text \<open>
  The exceptions the script can meet. \<open>WorksheetNotFound\<close> is the one exception the
  script catches by name (line 144); \<open>IndexError\<close> and \<open>ValueError\<close> are what
  \<open>[][-1]\<close> and \<open>max([])\<close> raise; every other exception is \<open>Error\<close> with its message.
\<close>

datatype exn = WorksheetNotFound | IndexError | ValueError | Error string

text \<open>
  A cell of a data frame: plus or minus infinity, a missing value (\<open>NaN\<close>, \<open>None\<close>),
  a string, or a finite number. Column labels are kept as their \<open>str()\<close> rendering,
  which is what line 138 makes of them.
\<close>

datatype cell = PosInf | NegInf | Missing | Text string | Number int

record dataframe =
  df_columns :: "string list"
  df_values :: "cell list list"

section \<open>Latest-file selection (lines 116 to 119)\<close>

text \<open>\<open>any(c[1] for c in candidates)\<close>: a \<open>datetime\<close> is always true, \<open>None\<close> is false.\<close>

definition any_mdtm :: "candidate list \<Rightarrow> bool" where
  "any_mdtm candidates = list_ex (\<lambda>c. c_mdtm c \<noteq> None) candidates"

text \<open>The key of line 117: \<open>(t[1] or datetime.min.replace(tzinfo=timezone.utc), t[0])\<close>.\<close>

definition newest_key :: "candidate \<Rightarrow> datetime \<times> string" where
  "newest_key t = ((case c_mdtm t of None \<Rightarrow> datetime_min | Some m \<Rightarrow> m), c_name t)"

text \<open>
  Python compares two tuples at the first position where they differ.
\<close>

definition tuple_gt :: "datetime \<times> string \<Rightarrow> datetime \<times> string \<Rightarrow> bool" where
  "tuple_gt a b = (if fst a \<noteq> fst b then fst b < fst a else snd b < snd a)"

text \<open>
  \<open>max(iterable, key=f)\<close> keeps the first item and replaces it only by an item whose key is
  strictly greater; on an empty iterable it raises \<open>ValueError\<close>.
\<close>

fun max_loop :: "('a \<Rightarrow> datetime \<times> string) \<Rightarrow> 'a \<Rightarrow> 'a list \<Rightarrow> 'a" where
  "max_loop key best [] = best"
| "max_loop key best (x # xs) =
     max_loop key (if tuple_gt (key x) (key best) then x else best) xs"

definition py_max :: "('a \<Rightarrow> datetime \<times> string) \<Rightarrow> 'a list \<Rightarrow> exn + 'a" where
  "py_max key xs = (case xs of [] \<Rightarrow> Inl ValueError | x # rest \<Rightarrow> Inr (max_loop key x rest))"

text \<open>
  \<open>sorted(candidates, key=lambda t: t[0])[-1]\<close>: a stable sort by name, then the last item;
  \<open>IndexError\<close> on an empty list.
\<close>

definition sorted_last :: "candidate list \<Rightarrow> exn + candidate" where
  "sorted_last candidates =
     (case sort_key c_name candidates of [] \<Rightarrow> Inl IndexError | x # rest \<Rightarrow> Inr (last (x # rest)))"

definition select_newest :: "candidate list \<Rightarrow> exn + candidate" where
  "select_newest candidates =
     (if any_mdtm candidates then py_max newest_key candidates else sorted_last candidates)"

section \<open>File extensions (lines 38 and 101)\<close>

text \<open>
  \<open>str.rfind\<close> for a single character: the greatest index where it stands, or \<open>-1\<close>.
\<close>

definition rfind :: "string \<Rightarrow> char \<Rightarrow> int" where
  "rfind p c =
     (case filter (\<lambda>i. p ! i = c) (rev [0..<length p]) of [] \<Rightarrow> - 1 | i # _ \<Rightarrow> int i)"

text \<open>
  \<open>os.path.splitext\<close> (the POSIX one): the extension starts at the last dot, provided
  that dot comes after the last slash and some character between the slash and the dot
  is not a dot (leading dots of the base name start no extension).
\<close>

definition splitext :: "string \<Rightarrow> string \<times> string" where
  "splitext p =
     (let sepIndex = rfind p (CHR ''/'');
          dotIndex = rfind p (CHR ''.'')
      in if sepIndex < dotIndex \<and>
            list_ex (\<lambda>i. p ! i \<noteq> CHR ''.'') [nat (sepIndex + 1)..<nat dotIndex]
         then (take (nat dotIndex) p, drop (nat dotIndex) p)
         else (p, []))"

text \<open>
  \<open>str.lower\<close> on the letters that matter for the comparison with the four extensions:
  \<open>A\<close> to \<open>Z\<close> become \<open>a\<close> to \<open>z\<close>, every other character stays. (No character outside
  \<open>A\<close> to \<open>Z\<close> has one of the letters of the four extensions as its lower case, so the
  tests of lines 40, 43 and 102 come out as in Python.)
\<close>

definition lower_char :: "char \<Rightarrow> char" where
  "lower_char c =
     (if CHR ''A'' \<le> c \<and> c \<le> CHR ''Z'' then char_of (of_char c + (32 :: nat)) else c)"

definition lower :: "string \<Rightarrow> string" where
  "lower s = map lower_char s"

definition ext_of :: "string \<Rightarrow> string" where
  "ext_of filename = lower (snd (splitext filename))"

section \<open>The outside world\<close>

text \<open>The calls the script makes, in the order it makes them: the trace of a run.\<close>

datatype call =
    FtpList
  | FtpSize string
  | FtpMdtm string
  | FtpRetr string
  | FtpQuit
  | ReadCsv
  | ReadExcel
  | ReadCsvLatin1
  | OpenByKey
  | GetWorksheet string
  | AddWorksheet string nat nat
  | BatchClear string
  | ValuesClear string
  | AddRows nat
  | Update string "cell list list"
  | InsertRow "cell list" nat

text \<open>
  Every call that leaves the script (the FTP server, pandas, the sheet service) has its
  outcome given by the environment: a value or an exception. Each call site after the
  loop of line 98 runs at most once in a run, so one outcome per call site covers every
  behaviour of the collaborators; the two calls inside the loop get the trace of the calls
  made so far, so the server may answer differently each time. \<open>get_mdtm\<close> (lines 27 to
  34) catches every exception and returns a time or \<open>None\<close>. The three pandas readers are
  the parsers \<open>load_df_from_bytes\<close> calls. \<open>ftp_names\<close> is the outcome of lines 85 to 95:
  connecting, logging in and listing. \<open>now_display\<close> is the outcome of lines 170 and 171
  after the fixed words \<open>Report synced at\<close>: the clock rendered in the zone
  \<open>Asia/Ho_Chi_Minh\<close>, or the exception of \<open>ZoneInfo\<close>. \<open>print\<close> is the outcome of the
  \<open>print(msg, flush=True)\<close> inside \<open>log\<close> (lines 17 and 18), for the \<open>log\<close> call at the
  given line of the source: writing to the standard output can raise, for instance when
  the reader of a pipe has gone. No \<open>log\<close> call stands in a loop, so each runs at most
  once.
\<close>

record env =
  ftp_names :: "exn + string list"
  ftp_size :: "call list \<Rightarrow> string \<Rightarrow> exn + nat option"
  get_mdtm :: "call list \<Rightarrow> string \<Rightarrow> datetime option"
  ftp_quit :: "exn option"
  retrbinary :: "string \<Rightarrow> exn + string"
  read_csv :: "string \<Rightarrow> exn + dataframe"
  read_excel :: "string \<Rightarrow> exn + dataframe"
  read_csv_latin1 :: "string \<Rightarrow> exn + dataframe"
  open_by_key :: "exn option"
  worksheet :: "exn + nat"
  add_worksheet :: "exn + nat"
  batch_clear :: "exn option"
  values_clear :: "exn option"
  add_rows :: "exn option"
  update_data :: "exn option"
  insert_row :: "exn option"
  update_timestamp :: "exn option"
  update_source :: "exn option"
  now_display :: "exn + string"
  worksheet_name :: string
  print :: "nat \<Rightarrow> exn option"

text \<open>
  A step of the script takes the trace so far and gives a value or an exception, and the
  trace with its own calls added. A call that raises is in the trace: it was made.
\<close>

type_synonym 'a io = "call list \<Rightarrow> (exn + 'a) \<times> call list"

definition io_return :: "'a \<Rightarrow> 'a io" where
  "io_return x tr = (Inr x, tr)"

definition io_call :: "call \<Rightarrow> exn + 'a \<Rightarrow> 'a io" where
  "io_call c outcome tr = (outcome, tr @ [c])"

definition io_bind :: "'a io \<Rightarrow> ('a \<Rightarrow> 'b io) \<Rightarrow> 'b io" where
  "io_bind m f tr = (case m tr of (Inl e, tr') \<Rightarrow> (Inl e, tr') | (Inr x, tr') \<Rightarrow> f x tr')"

definition raised :: "exn option \<Rightarrow> exn + unit" where
  "raised r = (case r of None \<Rightarrow> Inr () | Some e \<Rightarrow> Inl e)"

definition io_raise :: "exn \<Rightarrow> 'a io" where
  "io_raise e tr = (Inl e, tr)"

text \<open>
  \<open>log\<close> (lines 17 and 18), for the call at the given line. The trace lists the calls to
  the three collaborators; a \<open>log\<close> call adds nothing to it, but it may raise.
\<close>

definition log :: "env \<Rightarrow> nat \<Rightarrow> unit io" where
  "log env line tr = (raised (print env line), tr)"

section \<open>\<open>load_df_from_bytes\<close> (lines 36 to 54)\<close>

text \<open>
  One \<open>try\<close> holds all three branches, so the \<open>except\<close> clause retries with
  \<open>encoding="latin1"\<close> whichever reader failed; when the retry fails too, line 53 logs
  and the bare \<open>raise\<close> re-raises the retry's exception (when that \<open>log\<close> call raises,
  its exception leaves the function instead).
\<close>

definition first_parse :: "env \<Rightarrow> string \<Rightarrow> string \<Rightarrow> dataframe io" where
  "first_parse env filename data_bytes =
     (let ext = ext_of filename in
      if ext \<in> set [''.csv'', ''.txt''] then io_call ReadCsv (read_csv env data_bytes)
      else if ext \<in> set [''.xls'', ''.xlsx''] then io_call ReadExcel (read_excel env data_bytes)
      else io_call ReadCsv (read_csv env data_bytes))"

definition load_df_from_bytes :: "env \<Rightarrow> string \<Rightarrow> string \<Rightarrow> dataframe io" where
  "load_df_from_bytes env filename data_bytes tr =
     (case first_parse env filename data_bytes tr of
        (Inr df, tr') \<Rightarrow> (Inr df, tr')
      | (Inl e, tr') \<Rightarrow>
          (case io_call ReadCsvLatin1 (read_csv_latin1 env data_bytes) tr' of
             (Inr df, tr'') \<Rightarrow> (Inr df, tr'')
           | (Inl e', tr'') \<Rightarrow> io_bind (log env 53) (\<lambda>_. io_raise e') tr''))"

section \<open>Normalisation (lines 132 to 139)\<close>

definition MAX_COLS :: nat where
  "MAX_COLS = 26"

definition A1Z_RANGE :: string where
  "A1Z_RANGE = ''A1:Z''"

definition START_CELL :: string where
  "START_CELL = ''A1''"

text \<open>Lines 132 to 134: \<open>df.iloc[:, :MAX_COLS]\<close> when the frame has more columns.\<close>

definition truncate_cols :: "dataframe \<Rightarrow> dataframe" where
  "truncate_cols df =
     (if MAX_COLS < length (df_columns df)
      then df\<lparr>df_columns := take MAX_COLS (df_columns df),
              df_values := map (take MAX_COLS) (df_values df)\<rparr>
      else df)"

text \<open>Line 136: \<open>df.replace([np.inf, -np.inf], None)\<close>, then \<open>.fillna("")\<close>.\<close>

definition replace_inf :: "dataframe \<Rightarrow> dataframe" where
  "replace_inf df =
     df\<lparr>df_values := map (map (\<lambda>c. if c \<in> set [PosInf, NegInf] then Missing else c)) (df_values df)\<rparr>"

definition fillna :: "dataframe \<Rightarrow> dataframe" where
  "fillna df =
     df\<lparr>df_values := map (map (\<lambda>c. if c = Missing then Text [] else c)) (df_values df)\<rparr>"

definition normalize_df :: "dataframe \<Rightarrow> dataframe" where
  "normalize_df df = fillna (replace_inf (truncate_cols df))"

text \<open>Lines 138 and 139: the header row, then the data rows.\<close>

definition build_values :: "dataframe \<Rightarrow> cell list list" where
  "build_values df = map Text (df_columns df) # df_values df"

section \<open>The sheet mutations (lines 141 to 177)\<close>

text \<open>
  Lines 141 to 145. The worksheet found, or created when the lookup raises
  \<open>WorksheetNotFound\<close>; the value is the worksheet's \<open>row_count\<close>.
\<close>

definition get_worksheet :: "env \<Rightarrow> cell list list \<Rightarrow> nat io" where
  "get_worksheet env vals tr =
     (case worksheet env of
        Inr row_count \<Rightarrow> (Inr row_count, tr @ [GetWorksheet (worksheet_name env)])
      | Inl WorksheetNotFound \<Rightarrow>
          io_call (AddWorksheet (worksheet_name env) (max 100 (length vals + 10)) MAX_COLS)
            (add_worksheet env) (tr @ [GetWorksheet (worksheet_name env)])
      | Inl e \<Rightarrow> (Inl e, tr @ [GetWorksheet (worksheet_name env)]))"

text \<open>Lines 147 to 152: step 1, with its fallback.\<close>

definition clear_window :: "env \<Rightarrow> unit io" where
  "clear_window env tr =
     (case io_call (BatchClear A1Z_RANGE) (raised (batch_clear env)) tr of
        (Inr u, tr') \<Rightarrow> (Inr u, tr')
      | (Inl e, tr') \<Rightarrow>
          io_call (ValuesClear ([CHR 0x27] @ worksheet_name env @ [CHR 0x27] @ ''!'' @ A1Z_RANGE))
            (raised (values_clear env)) tr')"

text \<open>Lines 154 to 157.\<close>

definition ensure_rows :: "env \<Rightarrow> nat \<Rightarrow> cell list list \<Rightarrow> unit io" where
  "ensure_rows env row_count vals =
     (let needed_rows = length vals in
      if row_count < needed_rows
      then io_call (AddRows (needed_rows - row_count)) (raised (add_rows env))
      else io_return ())"

text \<open>Lines 159 to 163: step 2.\<close>

definition paste_data :: "env \<Rightarrow> cell list list \<Rightarrow> unit io" where
  "paste_data env vals =
     (let trimmed = map (take MAX_COLS) vals in
      if trimmed \<noteq> [] then io_call (Update START_CELL trimmed) (raised (update_data env))
      else io_return ())"

text \<open>Lines 165 to 177: steps 3, 4 and 5, and the closing message.\<close>

definition timestamp :: "string \<Rightarrow> string" where
  "timestamp display = ''Report synced at '' @ display"

definition source_note :: "string \<Rightarrow> string" where
  "source_note filename = ''Source file name: '' @ filename"

definition annotate :: "env \<Rightarrow> string \<Rightarrow> unit io" where
  "annotate env filename =
     io_bind (log env 166) (\<lambda>_.
     io_bind (io_call (InsertRow (replicate MAX_COLS (Text [])) 1) (raised (insert_row env))) (\<lambda>_.
     io_bind (\<lambda>tr. (now_display env, tr)) (\<lambda>display.
     io_bind (io_call (Update ''A1'' [[Text (timestamp display)]]) (raised (update_timestamp env))) (\<lambda>_.
     io_bind (io_call (Update ''D1'' [[Text (source_note filename)]]) (raised (update_source env))) (\<lambda>_.
     log env 177)))))"

definition sheet_sync :: "env \<Rightarrow> cell list list \<Rightarrow> string \<Rightarrow> unit io" where
  "sheet_sync env vals filename =
     io_bind (io_call OpenByKey (raised (open_by_key env))) (\<lambda>_.
     io_bind (get_worksheet env vals) (\<lambda>row_count.
     io_bind (log env 148) (\<lambda>_.
     io_bind (clear_window env) (\<lambda>_.
     io_bind (ensure_rows env row_count vals) (\<lambda>_.
     io_bind (log env 160) (\<lambda>_.
     io_bind (paste_data env vals) (\<lambda>_.
     annotate env filename)))))))"

section \<open>\<open>main\<close> (lines 83 to 182)\<close>

text \<open>
  The loop of lines 97 to 109. A name is skipped when it is \<open>.\<close> or \<open>..\<close>, when its
  extension is not one of the four, or when \<open>ftp.size\<close> raises.
\<close>

fun collect :: "env \<Rightarrow> string list \<Rightarrow> candidate list \<Rightarrow> candidate list io" where
  "collect env [] candidates tr = (Inr candidates, tr)"
| "collect env (n # names) candidates tr =
     (if n \<in> set [''.'', ''..''] then collect env names candidates tr
      else if ext_of n \<notin> set [''.csv'', ''.txt'', ''.xls'', ''.xlsx'']
      then collect env names candidates tr
      else (case ftp_size env tr n of
              Inl e \<Rightarrow> collect env names candidates (tr @ [FtpSize n])
            | Inr size' \<Rightarrow>
                collect env names (candidates @ [(n, get_mdtm env (tr @ [FtpSize n]) n, size')])
                  (tr @ [FtpSize n, FtpMdtm n])))"

text \<open>
  Lines 111 to 139 and the call of the sheet steps, with the \<open>log\<close> calls of lines 112,
  122, 130 and 133 (the last one only when the frame is truncated).
\<close>

definition fetch_and_sync :: "env \<Rightarrow> candidate list \<Rightarrow> unit io" where
  "fetch_and_sync env candidates =
     (if candidates = []
      then io_bind (log env 112) (\<lambda>_. io_call FtpQuit (raised (ftp_quit env)))
      else
        io_bind (\<lambda>tr. (select_newest candidates, tr)) (\<lambda>newest.
        io_bind (log env 122) (\<lambda>_.
        io_bind (io_call (FtpRetr (c_name newest)) (retrbinary env (c_name newest))) (\<lambda>data_bytes.
        io_bind (io_call FtpQuit (raised (ftp_quit env))) (\<lambda>_.
        io_bind (load_df_from_bytes env (c_name newest) data_bytes) (\<lambda>df.
        io_bind (log env 130) (\<lambda>_.
        io_bind (if MAX_COLS < length (df_columns df) then log env 133 else io_return ()) (\<lambda>_.
        sheet_sync env (build_values (normalize_df df)) (c_name newest)))))))))"

text \<open>The body of the \<open>try\<close> of line 84: lines 85 to 177.\<close>

definition main_try :: "env \<Rightarrow> unit io" where
  "main_try env =
     io_bind (log env 85) (\<lambda>_.
     io_bind (io_call FtpList (ftp_names env)) (\<lambda>names.
     io_bind (collect env names []) (\<lambda>candidates.
     fetch_and_sync env candidates)))"

text \<open>
  The \<open>except\<close> clause of lines 178 to 182: two \<open>log\<close> calls, then the bare \<open>raise\<close> of
  the exception that was caught. When one of the two \<open>log\<close> calls raises, its exception
  leaves \<open>main\<close> instead.
\<close>

definition main_except :: "env \<Rightarrow> exn \<Rightarrow> unit io" where
  "main_except env exc =
     io_bind (log env 179) (\<lambda>_.
     io_bind (log env 180) (\<lambda>_.
     io_raise exc))"

definition main :: "env \<Rightarrow> (exn + unit) \<times> call list" where
  "main env =
     (case main_try env [] of
        (Inr u, tr) \<Rightarrow> (Inr u, tr)
      | (Inl exc, tr) \<Rightarrow> main_except env exc tr)"

text \<open>
  The interpreter ends with status 0 when \<open>main\<close> returns and with a status other than 0
  when an exception leaves \<open>main\<close>: 1, as written here, or 120 when the standard output
  cannot be flushed at exit either.
\<close>

definition exit_status :: "exn + unit \<Rightarrow> nat" where
  "exit_status r = (case r of Inl e \<Rightarrow> 1 | Inr u \<Rightarrow> 0)"

text \<open>Which calls parse, and which reach the destination sheet.\<close>

fun is_parse :: "call \<Rightarrow> bool" where
  "is_parse ReadCsv = True"
| "is_parse ReadExcel = True"
| "is_parse ReadCsvLatin1 = True"
| "is_parse c = False"

fun is_sheet_call :: "call \<Rightarrow> bool" where
  "is_sheet_call OpenByKey = True"
| "is_sheet_call (GetWorksheet t) = True"
| "is_sheet_call (AddWorksheet t r c) = True"
| "is_sheet_call (BatchClear rng) = True"
| "is_sheet_call (ValuesClear rng) = True"
| "is_sheet_call (AddRows k) = True"
| "is_sheet_call (Update a v) = True"
| "is_sheet_call (InsertRow r i) = True"
| "is_sheet_call c = False"

fun is_update :: "call \<Rightarrow> bool" where
  "is_update (Update a v) = True"
| "is_update c = False"

fun is_insert_row :: "call \<Rightarrow> bool" where
  "is_insert_row (InsertRow r i) = True"
| "is_insert_row c = False"

text \<open>
  The sheet calls other than \<open>update\<close> and \<open>insert_row\<close>: opening the spreadsheet,
  finding or adding the worksheet, clearing the window and adding rows.
\<close>

definition is_setup :: "call \<Rightarrow> bool" where
  "is_setup c = (is_sheet_call c \<and> \<not> is_update c \<and> \<not> is_insert_row c)"




section \<open>Concrete runs\<close>

text \<open>
  A small frame with an infinite and a missing cell, a frame of 28 columns, and an
  environment in which every call succeeds except \<open>read_excel\<close>: the listing holds the two
  pseudo-entries, a file that is not tabular and two reports without modification times.
\<close>

definition sample_df :: dataframe where
  "sample_df =
     \<lparr>df_columns = [''a'', ''b''],
      df_values = [[Number 1, PosInf], [Missing, Text ''x''], [NegInf, Number 2]]\<rparr>"

definition wide_df :: dataframe where
  "wide_df =
     \<lparr>df_columns = map (\<lambda>i. [char_of (97 + i)]) [0..<28],
      df_values = [map (\<lambda>i. Number (int i)) [0..<28], map (\<lambda>i. Number (100 + int i)) [0..<28]]\<rparr>"

definition sample_env :: env where
  "sample_env =
     \<lparr>ftp_names = Inr [''.'', ''..'', ''notes.md'', ''report_2024.csv'', ''report_2025.csv''],
      ftp_size = (\<lambda>tr n. Inr (Some 10)),
      get_mdtm = (\<lambda>tr n. None),
      ftp_quit = None,
      retrbinary = (\<lambda>n. Inr ''a,b''),
      read_csv = (\<lambda>b. Inr sample_df),
      read_excel = (\<lambda>b. Inl (Error ''not a workbook'')),
      read_csv_latin1 = (\<lambda>b. Inr sample_df),
      open_by_key = None,
      worksheet = Inr 1,
      add_worksheet = Inr 100,
      batch_clear = None,
      values_clear = None,
      add_rows = None,
      update_data = None,
      insert_row = None,
      update_timestamp = None,
      update_source = None,
      now_display = Inr ''09:15 AM | 14-Aug-2025'',
      worksheet_name = ''OOCL_import'',
      print = (\<lambda>line. None)\<rparr>"

text \<open>
  Variations of the sample environment: the data write of line 163 is refused; the listing
  holds no tabular file; and the same with a session that cannot be closed.
\<close>

definition write_fail_env :: env where
  "write_fail_env = sample_env\<lparr>update_data := Some (Error ''quota exceeded'')\<rparr>"

definition no_files_env :: env where
  "no_files_env = sample_env\<lparr>ftp_names := Inr [''.'', ''..'', ''notes.md'']\<rparr>"

definition quit_fail_env :: env where
  "quit_fail_env = no_files_env\<lparr>ftp_quit := Some (Error ''421 timeout'')\<rparr>"

section \<open>Theorems\<close>

lemma sorted_last_Inr:
  assumes "cs \<noteq> []"
  shows "sorted_last cs = Inr (last (sort_key c_name cs))"
proof -
  have "sort_key c_name cs \<noteq> []"
    using assms by (metis length_sort list.size(3) length_0_conv)
  then show ?thesis
    by (cases "sort_key c_name cs") (simp_all add: sorted_last_def)
qed

lemma sorted_le_last:
  "sorted xs \<Longrightarrow> x \<in> set xs \<Longrightarrow> x \<le> last (xs :: 'a::linorder list)"
  by (induction xs) auto

lemma last_sort_key_greatest:
  assumes "cs \<noteq> []"
  shows "last (sort_key f cs) \<in> set cs \<and> (\<forall>c\<in>set cs. f c \<le> f (last (sort_key f cs)))"
proof -
  let ?s = "sort_key f cs"
  have ne: "?s \<noteq> []"
    using assms by (metis length_sort list.size(3) length_0_conv)
  have mem: "last ?s \<in> set cs"
    using last_in_set [OF ne] by simp
  have srt: "sorted (map f ?s)"
    by (rule sorted_sort_key)
  have "f c \<le> f (last ?s)" if "c \<in> set cs" for c
  proof -
    from that have "f c \<in> set (map f ?s)" by simp
    with srt have "f c \<le> last (map f ?s)"
      by (rule sorted_le_last)
    then show ?thesis
      using ne by (simp add: last_map)
  qed
  with mem show ?thesis by blast
qed

lemma any_mdtm_False:
  "\<forall>c\<in>set cs. c_mdtm c = None \<Longrightarrow> \<not> any_mdtm cs"
  by (simp add: any_mdtm_def list_ex_iff)

text \<open>
  Claim C2. When the candidate list is not empty and no candidate has a modification time,
  the selection returns a candidate of the list whose name is the greatest in
  lexicographic order. With \<open>report_2024.csv\<close> and \<open>report_2025.csv\<close>, both without a
  modification time and listed in either order, it selects \<open>report_2025.csv\<close>.
\<close>

theorem select_newest_no_mdtm:
  "(cs \<noteq> [] \<and> (\<forall>c\<in>set cs. c_mdtm c = None) \<longrightarrow>
      (\<exists>r. select_newest cs = Inr r \<and> r \<in> set cs \<and> (\<forall>c\<in>set cs. c_name c \<le> c_name r)))
   \<and> select_newest [(''report_2024.csv'', None, s1), (''report_2025.csv'', None, s2)]
       = Inr (''report_2025.csv'', None, s2)
   \<and> select_newest [(''report_2025.csv'', None, s2), (''report_2024.csv'', None, s1)]
       = Inr (''report_2025.csv'', None, s2)"
proof (intro conjI impI)
  assume h: "cs \<noteq> [] \<and> (\<forall>c\<in>set cs. c_mdtm c = None)"
  then have "select_newest cs = Inr (last (sort_key c_name cs))"
    by (simp add: select_newest_def any_mdtm_False sorted_last_Inr)
  with h last_sort_key_greatest [of cs c_name]
  show "\<exists>r. select_newest cs = Inr r \<and> r \<in> set cs \<and> (\<forall>c\<in>set cs. c_name c \<le> c_name r)"
    by blast
next
  show "select_newest [(''report_2024.csv'', None, s1), (''report_2025.csv'', None, s2)]
        = Inr (''report_2025.csv'', None, s2)"
    by (simp add: select_newest_def any_mdtm_def c_mdtm_def c_name_def sorted_last_def)
next
  show "select_newest [(''report_2025.csv'', None, s2), (''report_2024.csv'', None, s1)]
        = Inr (''report_2025.csv'', None, s2)"
    by (simp add: select_newest_def any_mdtm_def c_mdtm_def c_name_def sorted_last_def)
qed

theorem select_newest_no_mdtm_witness:
  "select_newest [(''b.txt'', None, Some 7), (''a.csv'', None, None)] = Inr (''b.txt'', None, Some 7)
   \<and> c_name (''a.csv'', None, None) \<le> c_name (''b.txt'', None, Some (7::nat))"
proof -
  let ?cs = "[(''b.txt'', None, Some 7), (''a.csv'', None, None)] :: candidate list"
  have pre: "?cs \<noteq> [] \<and> (\<forall>c\<in>set ?cs. c_mdtm c = None)"
    by (simp add: c_mdtm_def)
  from select_newest_no_mdtm [of ?cs] pre
  obtain r where r: "select_newest ?cs = Inr r" "r \<in> set ?cs" "\<forall>c\<in>set ?cs. c_name c \<le> c_name r"
    by blast
  from r(2,3) have "r = (''b.txt'', None, Some 7)"
    by (auto simp add: c_name_def)
  with r(1) show ?thesis
    by (simp add: c_name_def)
qed

subsection \<open>The maximum of line 117\<close>

lemma tuple_gt_iff:
  "tuple_gt a b \<longleftrightarrow> fst b < fst a \<or> (fst a = fst b \<and> snd b < snd a)"
  by (auto simp add: tuple_gt_def)

lemma not_tuple_gt_trans:
  "\<not> tuple_gt a b \<Longrightarrow> \<not> tuple_gt b c \<Longrightarrow> \<not> tuple_gt a c"
  by (auto simp add: tuple_gt_iff)

lemma max_loop_mem: "max_loop key best xs \<in> set (best # xs)"
  by (induction xs arbitrary: best) auto

lemma max_loop_best: "\<not> tuple_gt (key best) (key (max_loop key best xs))"
proof (induction xs arbitrary: best)
  case Nil
  show ?case by (simp add: tuple_gt_iff)
next
  case (Cons x xs)
  let ?b = "if tuple_gt (key x) (key best) then x else best"
  have step: "\<not> tuple_gt (key best) (key ?b)"
    by (auto simp add: tuple_gt_iff)
  from not_tuple_gt_trans [OF step Cons.IH [of ?b]] show ?case
    by simp
qed

lemma max_loop_greatest:
  "c \<in> set (best # xs) \<Longrightarrow> \<not> tuple_gt (key c) (key (max_loop key best xs))"
proof (induction xs arbitrary: best)
  case Nil
  then show ?case by (simp add: tuple_gt_iff)
next
  case (Cons x xs)
  let ?b = "if tuple_gt (key x) (key best) then x else best"
  show ?case
  proof (cases "c \<in> set xs")
    case True
    then have "c \<in> set (?b # xs)" by simp
    from Cons.IH [OF this] show ?thesis by simp
  next
    case False
    with Cons.prems have "c = best \<or> c = x" by auto
    then have step: "\<not> tuple_gt (key c) (key ?b)"
      by (auto simp add: tuple_gt_iff)
    from not_tuple_gt_trans [OF step max_loop_best [of key ?b xs]] show ?thesis
      by simp
  qed
qed

lemma py_max_greatest:
  assumes "cs \<noteq> []"
  shows "\<exists>r. py_max key cs = Inr r \<and> r \<in> set cs \<and> (\<forall>c\<in>set cs. \<not> tuple_gt (key c) (key r))"
proof (cases cs)
  case Nil
  with assms show ?thesis by simp
next
  case (Cons x xs)
  then show ?thesis
    using max_loop_mem [of key x xs] max_loop_greatest [of _ x xs key]
    by (simp add: py_max_def)
qed

text \<open>
  Claim C1, as amended. When the candidate list is not empty, at least one candidate has a
  modification time, and either some modification time is later than \<open>datetime.min\<close> (the
  value line 117 puts in the place of a missing time) or no candidate lacks a modification
  time, the selection returns a candidate of the list that has the maximum modification
  time and, among the candidates with that time, the greatest name.
\<close>

theorem select_newest_max_mdtm:
  assumes "cs \<noteq> []"
    and "\<exists>c\<in>set cs. c_mdtm c \<noteq> None"
    and "(\<exists>c\<in>set cs. \<exists>u. c_mdtm c = Some u \<and> datetime_min < u) \<or> (\<forall>c\<in>set cs. c_mdtm c \<noteq> None)"
  shows "\<exists>r t. select_newest cs = Inr r \<and> r \<in> set cs \<and> c_mdtm r = Some t
           \<and> (\<forall>c\<in>set cs. \<forall>u. c_mdtm c = Some u \<longrightarrow> u \<le> t)
           \<and> (\<forall>c\<in>set cs. c_mdtm c = Some t \<longrightarrow> c_name c \<le> c_name r)"
proof -
  from assms(2) have "any_mdtm cs"
    by (simp add: any_mdtm_def list_ex_iff)
  then have sel: "select_newest cs = py_max newest_key cs"
    by (simp add: select_newest_def)
  from py_max_greatest [OF assms(1), of newest_key]
  obtain r where r: "py_max newest_key cs = Inr r" "r \<in> set cs"
    and top: "\<forall>c\<in>set cs. \<not> tuple_gt (newest_key c) (newest_key r)"
    by blast
  have fst_le: "fst (newest_key c) \<le> fst (newest_key r)" if "c \<in> set cs" for c
    using top that by (auto simp add: tuple_gt_iff)
  have "c_mdtm r \<noteq> None"
  proof
    assume none: "c_mdtm r = None"
    then have zero: "fst (newest_key r) = datetime_min"
      by (simp add: newest_key_def)
    from assms(3) none r(2) obtain c u where c: "c \<in> set cs" "c_mdtm c = Some u" "datetime_min < u"
      by blast
    from fst_le [OF c(1)] c(2) zero have "u \<le> datetime_min"
      by (simp add: newest_key_def)
    with c(3) show False by simp
  qed
  then obtain t where t: "c_mdtm r = Some t" by blast
  have le: "u \<le> t" if "c \<in> set cs" "c_mdtm c = Some u" for c u
    using fst_le [OF that(1)] that(2) t by (simp add: newest_key_def)
  have name: "c_name c \<le> c_name r" if "c \<in> set cs" "c_mdtm c = Some t" for c
  proof -
    from top that(1) have "\<not> tuple_gt (newest_key c) (newest_key r)" by blast
    with that(2) t show ?thesis
      by (simp add: tuple_gt_iff newest_key_def)
  qed
  have "select_newest cs = Inr r \<and> r \<in> set cs \<and> c_mdtm r = Some t
           \<and> (\<forall>c\<in>set cs. \<forall>u. c_mdtm c = Some u \<longrightarrow> u \<le> t)
           \<and> (\<forall>c\<in>set cs. c_mdtm c = Some t \<longrightarrow> c_name c \<le> c_name r)"
    using sel r t le name by simp
  then show ?thesis by (intro exI)
qed


theorem select_newest_max_mdtm_witness:
  "select_newest [(''a.csv'', Some 5, Some 1), (''c.csv'', None, None), (''b.csv'', Some 5, Some 2)]
     = Inr (''b.csv'', Some 5, Some 2)"
proof -
  let ?cs = "[(''a.csv'', Some 5, Some 1), (''c.csv'', None, None), (''b.csv'', Some 5, Some 2)]
             :: candidate list"
  have h1: "?cs \<noteq> []" by simp
  have h2: "\<exists>c\<in>set ?cs. c_mdtm c \<noteq> None"
    by (simp add: c_mdtm_def)
  have h3: "(\<exists>c\<in>set ?cs. \<exists>u. c_mdtm c = Some u \<and> datetime_min < u) \<or> (\<forall>c\<in>set ?cs. c_mdtm c \<noteq> None)"
    by (simp add: c_mdtm_def datetime_min_def)
  from select_newest_max_mdtm [OF h1 h2 h3]
  obtain r t where r: "select_newest ?cs = Inr r" "r \<in> set ?cs" "c_mdtm r = Some t"
    and name: "\<forall>c\<in>set ?cs. c_mdtm c = Some t \<longrightarrow> c_name c \<le> c_name r"
    by blast
  from r(2,3) name have "r = (''b.csv'', Some 5, Some 2)"
    by (auto simp add: c_mdtm_def c_name_def)
  with r(1) show ?thesis by simp
qed

text \<open>
  The claim as first stated fails when the only modification time is \<open>datetime.min\<close>
  itself: the candidate without a time gets the same key, and its greater name wins.
\<close>

theorem select_newest_max_mdtm_counterexample:
  "any_mdtm [(''a.csv'', Some datetime_min, Some 1), (''b.csv'', None, Some 1)]
   \<and> select_newest [(''a.csv'', Some datetime_min, Some 1), (''b.csv'', None, Some 1)]
       = Inr (''b.csv'', None, Some 1)
   \<and> c_mdtm (''b.csv'', None, Some 1) = None"
  by (simp add: select_newest_def any_mdtm_def c_mdtm_def c_name_def py_max_def newest_key_def
      tuple_gt_def)

subsection \<open>The size plays no part\<close>

lemma max_loop_map:
  assumes "\<And>x. key (g x) = key x"
  shows "max_loop key (g best) (map g xs) = g (max_loop key best xs)"
  by (induction xs arbitrary: best) (simp_all add: assms)

lemma insort_key_map:
  assumes "\<And>x. f (g x) = f x"
  shows "insort_key f (g x) (map g xs) = map g (insort_key f x xs)"
  by (induction xs) (simp_all add: assms)

lemma sort_key_map:
  assumes "\<And>x. f (g x) = f x"
  shows "sort_key f (map g xs) = map g (sort_key f xs)"
  by (induction xs) (simp_all add: insort_key_map [of f g] assms)

lemma select_newest_map:
  assumes nm: "\<And>x. c_name (g x) = c_name x" and md: "\<And>x. c_mdtm (g x) = c_mdtm x"
  shows "select_newest (map g cs) = map_sum id g (select_newest cs)"
proof (cases cs)
  case Nil
  then show ?thesis
    by (simp add: select_newest_def any_mdtm_def sorted_last_def)
next
  case (Cons x xs)
  have key: "newest_key (g c) = newest_key c" for c
    by (simp add: newest_key_def nm md)
  have any: "any_mdtm (map g cs) = any_mdtm cs"
    by (simp add: any_mdtm_def list_ex_iff md)
  have ne: "sort_key c_name cs \<noteq> []"
    using Cons by (metis length_sort list.size(3) length_0_conv list.distinct(1))
  have mx: "py_max newest_key (map g cs) = map_sum id g (py_max newest_key cs)"
    using Cons by (simp add: py_max_def max_loop_map [of newest_key g] key)
  have "sorted_last (map g cs) = Inr (last (sort_key c_name (map g cs)))"
    using Cons by (simp add: sorted_last_Inr)
  also have "\<dots> = Inr (g (last (sort_key c_name cs)))"
    using ne by (simp add: sort_key_map [of c_name g] nm last_map)
  also have "\<dots> = map_sum id g (sorted_last cs)"
    using Cons by (simp add: sorted_last_Inr)
  finally show ?thesis
    using any mx by (simp add: select_newest_def)
qed

lemma select_newest_size_free:
  assumes "map c_name cs = map c_name cs'" and "map c_mdtm cs = map c_mdtm cs'"
  shows "map_sum id c_name (select_newest cs) = map_sum id c_name (select_newest cs')
       \<and> map_sum id c_mdtm (select_newest cs) = map_sum id c_mdtm (select_newest cs')"
proof -
  define g :: "candidate \<Rightarrow> candidate" where "g c = (c_name c, c_mdtm c, None)" for c
  have nm: "c_name (g x) = c_name x" and md: "c_mdtm (g x) = c_mdtm x" for x
    by (simp_all add: g_def c_name_def c_mdtm_def)
  have "map g cs = map g cs'"
    using assms by (simp add: g_def list_eq_iff_nth_eq)
  then have eq: "map_sum id g (select_newest cs) = map_sum id g (select_newest cs')"
    by (simp add: select_newest_map [of g, OF nm md, symmetric])
  have "map_sum id c_name (select_newest cs) = map_sum id c_name (map_sum id g (select_newest cs))"
    by (cases "select_newest cs") (simp_all add: nm)
  also have "\<dots> = map_sum id c_name (select_newest cs')"
    unfolding eq by (cases "select_newest cs'") (simp_all add: nm)
  finally have a: "map_sum id c_name (select_newest cs) = map_sum id c_name (select_newest cs')" .
  have "map_sum id c_mdtm (select_newest cs) = map_sum id c_mdtm (map_sum id g (select_newest cs))"
    by (cases "select_newest cs") (simp_all add: md)
  also have "\<dots> = map_sum id c_mdtm (select_newest cs')"
    unfolding eq by (cases "select_newest cs'") (simp_all add: md)
  finally have b: "map_sum id c_mdtm (select_newest cs) = map_sum id c_mdtm (select_newest cs')" .
  from a b show ?thesis by simp
qed

lemma select_newest_Inr:
  assumes "cs \<noteq> []"
  shows "\<exists>r. select_newest cs = Inr r \<and> r \<in> set cs"
proof (cases "any_mdtm cs")
  case True
  with py_max_greatest [OF assms, of newest_key] show ?thesis
    by (auto simp add: select_newest_def)
next
  case False
  with sorted_last_Inr [OF assms] last_sort_key_greatest [OF assms, of c_name] show ?thesis
    by (simp add: select_newest_def)
qed

text \<open>
  Claim C10. Two candidate lists that agree on every name and every modification time, and
  differ at most in the sizes, select candidates with the same name (and the same
  modification time), in the branch of line 117 and in the branch of line 119.
\<close>

theorem select_newest_ignores_size:
  assumes "map c_name cs = map c_name cs'" and "map c_mdtm cs = map c_mdtm cs'" and "cs \<noteq> []"
  shows "\<exists>r r'. select_newest cs = Inr r \<and> select_newest cs' = Inr r'
           \<and> c_name r = c_name r' \<and> c_mdtm r = c_mdtm r'"
proof -
  from assms(1,3) have ne': "cs' \<noteq> []" by auto
  from select_newest_Inr [OF assms(3)] obtain r where r: "select_newest cs = Inr r" by blast
  from select_newest_Inr [OF ne'] obtain r' where r': "select_newest cs' = Inr r'" by blast
  from select_newest_size_free [OF assms(1,2)] r r'
  have "c_name r = c_name r' \<and> c_mdtm r = c_mdtm r'" by simp
  with r r' show ?thesis by simp
qed

theorem select_newest_ignores_size_witness:
  "\<exists>r r'. select_newest [(''a.csv'', Some 3, Some 10), (''b.csv'', Some 3, None)] = Inr r
      \<and> select_newest [(''a.csv'', Some 3, Some 99), (''b.csv'', Some 3, Some 0)] = Inr r'
      \<and> c_name r = c_name r' \<and> c_mdtm r = c_mdtm r'"
  using select_newest_ignores_size
    [of "[(''a.csv'', Some 3, Some 10), (''b.csv'', Some 3, None)]"
        "[(''a.csv'', Some 3, Some 99), (''b.csv'', Some 3, Some 0)]"]
  by (simp add: c_name_def c_mdtm_def)


subsection \<open>The parser's retry\<close>

text \<open>
  Claim C4, as amended. For a file name whose extension is \<open>.xls\<close> or \<open>.xlsx\<close> (in any
  letter case), when \<open>read_excel\<close> fails the parser retries once, reading the same bytes as
  delimited text with \<open>encoding="latin1"\<close>. When the retry succeeds its table is the
  parser's result. When the retry fails too, the parser ends with the retry's exception,
  or with the exception of the \<open>log\<close> call of line 53 when that call raises.
\<close>

theorem load_df_excel_retry:
  assumes "ext_of filename \<in> set [''.xls'', ''.xlsx'']" and "read_excel env data_bytes = Inl e"
  shows "load_df_from_bytes env filename data_bytes tr
         = ((case read_csv_latin1 env data_bytes of
               Inr df \<Rightarrow> Inr df
             | Inl e' \<Rightarrow> (case print env 53 of None \<Rightarrow> Inl e' | Some e'' \<Rightarrow> Inl e'')),
            tr @ [ReadExcel, ReadCsvLatin1])"
  using assms
  by (auto simp add: load_df_from_bytes_def first_parse_def io_call_def io_bind_def log_def
      io_raise_def raised_def split: sum.splits option.splits)

lemma ext_of_report_xlsx: "ext_of ''report.xlsx'' = ''.xlsx''"
  by code_simp

theorem load_df_excel_retry_witness:
  "load_df_from_bytes sample_env ''report.xlsx'' ''PK'' []
     = ((case read_csv_latin1 sample_env ''PK'' of
           Inr df \<Rightarrow> Inr df
         | Inl e' \<Rightarrow> (case print sample_env 53 of None \<Rightarrow> Inl e' | Some e'' \<Rightarrow> Inl e'')),
        [] @ [ReadExcel, ReadCsvLatin1])"
proof -
  have h1: "ext_of ''report.xlsx'' \<in> set [''.xls'', ''.xlsx'']"
    by (simp add: ext_of_report_xlsx)
  have h2: "read_excel sample_env ''PK'' = Inl (Error ''not a workbook'')"
    by (simp add: sample_env_def)
  from load_df_excel_retry [OF h1 h2] show ?thesis .
qed

text \<open>
  The claim as first stated fails: \<open>report.xlsx\<close> whose workbook parse fails is read again
  with the permissive encoding, and the parser returns the table of that retry.
\<close>

theorem load_df_excel_counterexample:
  "ext_of ''report.xlsx'' = ''.xlsx''
   \<and> read_excel sample_env ''PK'' = Inl (Error ''not a workbook'')
   \<and> load_df_from_bytes sample_env ''report.xlsx'' ''PK'' []
       = (Inr sample_df, [ReadExcel, ReadCsvLatin1])"
  by (simp add: ext_of_report_xlsx load_df_from_bytes_def first_parse_def io_call_def sample_env_def)

subsection \<open>Normalisation\<close>

lemma values_fillna_replace_inf:
  "df_values (fillna (replace_inf df))
     = map (map (\<lambda>c. if c = PosInf \<or> c = NegInf \<or> c = Missing then Text [] else c)) (df_values df)"
  by (simp add: fillna_def replace_inf_def comp_def)

lemma columns_fillna_replace_inf:
  "df_columns (fillna (replace_inf df)) = df_columns df"
  by (simp add: fillna_def replace_inf_def)

text \<open>
  Claim C7. Line 136 keeps the shape and the column labels of the frame, turns every cell
  that is plus infinity, minus infinity or missing into the empty string, and leaves every
  other cell as it is. In the whole normalisation this is applied to the cells that the
  truncation of lines 132 to 134 keeps, which are all of them when the frame has at most
  26 columns.
\<close>

theorem normalize_blanks_cells:
  "df_values (fillna (replace_inf df))
     = map (map (\<lambda>c. if c = PosInf \<or> c = NegInf \<or> c = Missing then Text [] else c)) (df_values df)
   \<and> df_columns (fillna (replace_inf df)) = df_columns df
   \<and> df_values (normalize_df df)
     = map (map (\<lambda>c. if c = PosInf \<or> c = NegInf \<or> c = Missing then Text [] else c))
         (df_values (truncate_cols df))
   \<and> (length (df_columns df) \<le> MAX_COLS \<longrightarrow> truncate_cols df = df)"
  by (simp add: values_fillna_replace_inf columns_fillna_replace_inf normalize_df_def truncate_cols_def)

theorem normalize_blanks_cells_witness:
  "df_values (normalize_df sample_df)
     = [[Number 1, Text []], [Text [], Text ''x''], [Text [], Number 2]]"
proof -
  have small: "length (df_columns sample_df) \<le> MAX_COLS"
    by (simp add: sample_df_def MAX_COLS_def)
  from normalize_blanks_cells [of sample_df] small
  have "df_values (normalize_df sample_df)
     = map (map (\<lambda>c. if c = PosInf \<or> c = NegInf \<or> c = Missing then Text [] else c))
         (df_values sample_df)"
    by simp
  then show ?thesis
    by (simp add: sample_df_def)
qed

text \<open>
  Claim C6. A frame with more than 26 columns, every row as wide as the header, is
  normalised to exactly 26 columns: the labels are the first 26 labels, every data row has
  26 cells, the cell at row \<open>i\<close> and column \<open>j < 26\<close> is the cell of the original at that
  place (blanked when infinite or missing), every row handed to the sheet is 26 wide, and
  the result is the same for any two frames that agree on their first 26 columns: nothing
  of a column with index 26 or more reaches it.
\<close>

theorem normalize_truncates:
  assumes wide: "MAX_COLS < length (df_columns df)"
    and rect: "\<forall>row\<in>set (df_values df). length row = length (df_columns df)"
  shows "length (df_columns (normalize_df df)) = 26
       \<and> df_columns (normalize_df df) = take 26 (df_columns df)
       \<and> length (df_values (normalize_df df)) = length (df_values df)
       \<and> (\<forall>row\<in>set (df_values (normalize_df df)). length row = 26)
       \<and> (\<forall>i<length (df_values df). \<forall>j<26.
            df_values (normalize_df df) ! i ! j
              = (let c = df_values df ! i ! j
                 in if c = PosInf \<or> c = NegInf \<or> c = Missing then Text [] else c))
       \<and> (\<forall>row\<in>set (build_values (normalize_df df)). length row = 26)
       \<and> (\<forall>df'. MAX_COLS < length (df_columns df')
              \<and> take 26 (df_columns df') = take 26 (df_columns df)
              \<and> map (take 26) (df_values df') = map (take 26) (df_values df)
            \<longrightarrow> normalize_df df' = normalize_df df)"
proof -
  let ?clean = "\<lambda>c. if c = PosInf \<or> c = NegInf \<or> c = Missing then Text [] else c"
  have cols: "df_columns (normalize_df df) = take 26 (df_columns df)"
    using wide by (simp add: normalize_df_def columns_fillna_replace_inf truncate_cols_def MAX_COLS_def)
  have vals: "df_values (normalize_df df) = map (map ?clean) (map (take 26) (df_values df))"
    using wide by (simp add: normalize_df_def values_fillna_replace_inf truncate_cols_def MAX_COLS_def)
  have len_cols: "length (df_columns (normalize_df df)) = 26"
    using wide by (simp add: cols MAX_COLS_def)
  have len_rows: "\<forall>row\<in>set (df_values (normalize_df df)). length row = 26"
    using wide rect by (auto simp add: vals MAX_COLS_def)
  have cellwise: "\<forall>i<length (df_values df). \<forall>j<26.
            df_values (normalize_df df) ! i ! j = (let c = df_values df ! i ! j in ?clean c)"
    using wide rect by (simp add: vals MAX_COLS_def Let_def)
  have header: "\<forall>row\<in>set (build_values (normalize_df df)). length row = 26"
    using len_rows len_cols by (simp add: build_values_def)
  have indep: "normalize_df df' = normalize_df df"
    if "MAX_COLS < length (df_columns df')"
      and "take 26 (df_columns df') = take 26 (df_columns df)"
      and "map (take 26) (df_values df') = map (take 26) (df_values df)" for df'
    using that wide
    by (simp add: normalize_df_def truncate_cols_def fillna_def replace_inf_def MAX_COLS_def)
  from cols vals len_cols len_rows cellwise header indep show ?thesis
    by simp
qed

theorem normalize_truncates_witness:
  "length (df_columns (normalize_df wide_df)) = 26
   \<and> length (df_values (normalize_df wide_df)) = length (df_values wide_df)
   \<and> df_values (normalize_df wide_df) ! 1 ! 25 = Number 125"
proof -
  have h1: "MAX_COLS < length (df_columns wide_df)"
    by (simp add: wide_df_def MAX_COLS_def)
  have h2: "\<forall>row\<in>set (df_values wide_df). length row = length (df_columns wide_df)"
    by (simp add: wide_df_def)
  have rows: "1 < length (df_values wide_df)"
    by (simp add: wide_df_def)
  have cell: "df_values wide_df ! 1 ! 25 = Number 125"
    by code_simp
  note facts = normalize_truncates [OF h1 h2]
  from facts have a: "length (df_columns (normalize_df wide_df)) = 26"
    by blast
  from facts have b: "length (df_values (normalize_df wide_df)) = length (df_values wide_df)"
    by blast
  from facts have "\<forall>i<length (df_values wide_df). \<forall>j<26.
      df_values (normalize_df wide_df) ! i ! j
        = (let c = df_values wide_df ! i ! j
           in if c = PosInf \<or> c = NegInf \<or> c = Missing then Text [] else c)"
    by blast
  with rows have c: "df_values (normalize_df wide_df) ! 1 ! 25
      = (let c = df_values wide_df ! 1 ! 25
         in if c = PosInf \<or> c = NegInf \<or> c = Missing then Text [] else c)"
    by simp
  from a b c
  have "length (df_columns (normalize_df wide_df)) = 26"
    and "length (df_values (normalize_df wide_df)) = length (df_values wide_df)"
    and "df_values (normalize_df wide_df) ! 1 ! 25
          = (let c = df_values wide_df ! 1 ! 25
             in if c = PosInf \<or> c = NegInf \<or> c = Missing then Text [] else c)"
    by simp_all
  with cell show ?thesis by simp
qed


subsection \<open>Traces of the steps\<close>

lemma io_bind_cases:
  assumes "io_bind m f tr = (r, tr2)"
  obtains (raise) e where "m tr = (Inl e, tr2)" and "r = Inl e"
        | (ok) x tr1 where "m tr = (Inr x, tr1)" and "f x tr1 = (r, tr2)"
  using assms by (auto simp add: io_bind_def split: prod.splits sum.splits)

lemma io_call_eq: "io_call c outcome tr = (r, tr') \<longleftrightarrow> r = outcome \<and> tr' = tr @ [c]"
  by (auto simp add: io_call_def)

lemma raised_Inl: "raised x = Inl e \<longleftrightarrow> x = Some e"
  by (cases x) (simp_all add: raised_def)

lemma raised_Inr: "raised x = Inr u \<longleftrightarrow> x = None"
  by (cases x) (simp_all add: raised_def)

lemma collect_trace:
  "collect env names cs tr = (r, tr') \<Longrightarrow>
     \<exists>cs' ev. r = Inr cs' \<and> tr' = tr @ ev \<and> (\<forall>c\<in>set ev. \<not> is_sheet_call c \<and> \<not> is_parse c)"
proof (induction names arbitrary: cs tr)
  case Nil
  then show ?case by auto
next
  case (Cons n names)
  show ?case
  proof (cases "n \<in> set [''.'', ''..''] \<or> ext_of n \<notin> set [''.csv'', ''.txt'', ''.xls'', ''.xlsx'']")
    case True
    with Cons.prems have "collect env names cs tr = (r, tr')"
      by (auto split: if_splits)
    from Cons.IH [OF this] show ?thesis .
  next
    case False
    show ?thesis
    proof (cases "ftp_size env tr n")
      case (Inl e)
      with False Cons.prems have "collect env names cs (tr @ [FtpSize n]) = (r, tr')"
        by (auto split: if_splits)
      from Cons.IH [OF this] obtain cs' ev where
        "r = Inr cs'" "tr' = tr @ (FtpSize n # ev)" "\<forall>c\<in>set ev. \<not> is_sheet_call c \<and> \<not> is_parse c"
        by auto
      then have "r = Inr cs' \<and> tr' = tr @ (FtpSize n # ev)
          \<and> (\<forall>c\<in>set (FtpSize n # ev). \<not> is_sheet_call c \<and> \<not> is_parse c)"
        by simp
      then show ?thesis by blast
    next
      case (Inr sz)
      with False Cons.prems
      have "collect env names (cs @ [(n, get_mdtm env (tr @ [FtpSize n]) n, sz)]) (tr @ [FtpSize n, FtpMdtm n]) = (r, tr')"
        by (auto split: if_splits)
      from Cons.IH [OF this] obtain cs' ev where
        "r = Inr cs'" "tr' = tr @ (FtpSize n # FtpMdtm n # ev)"
        "\<forall>c\<in>set ev. \<not> is_sheet_call c \<and> \<not> is_parse c"
        by auto
      then have "r = Inr cs' \<and> tr' = tr @ (FtpSize n # FtpMdtm n # ev)
          \<and> (\<forall>c\<in>set (FtpSize n # FtpMdtm n # ev). \<not> is_sheet_call c \<and> \<not> is_parse c)"
        by simp
      then show ?thesis by blast
    qed
  qed
qed

lemma get_worksheet_trace:
  "get_worksheet env vals tr = (r, tr') \<Longrightarrow> \<exists>ev. tr' = tr @ ev \<and> (\<forall>c\<in>set ev. is_setup c)"
  by (auto simp add: get_worksheet_def io_call_def is_setup_def split: sum.splits exn.splits)

lemma clear_window_trace:
  "clear_window env tr = (r, tr') \<Longrightarrow> \<exists>ev. tr' = tr @ ev \<and> (\<forall>c\<in>set ev. is_setup c)"
  by (auto simp add: clear_window_def io_call_def is_setup_def split: sum.splits prod.splits)

lemma ensure_rows_trace:
  "ensure_rows env n vals tr = (r, tr') \<Longrightarrow> \<exists>ev. tr' = tr @ ev \<and> (\<forall>c\<in>set ev. is_setup c)"
  by (auto simp add: ensure_rows_def io_call_def io_return_def is_setup_def Let_def split: if_splits)

lemma paste_data_eq:
  "vals \<noteq> [] \<Longrightarrow>
     paste_data env vals tr
       = (raised (update_data env), tr @ [Update START_CELL (map (take MAX_COLS) vals)])"
  by (simp add: paste_data_def io_call_def Let_def)

lemma log_eq: "log env n tr = (r, tr') \<longleftrightarrow> r = raised (print env n) \<and> tr' = tr"
  by (auto simp add: log_def)

lemma log_bind_cases:
  assumes "io_bind (log env n) f tr = (r, tr')"
  obtains (log_raise) e where "print env n = Some e" and "r = Inl e" and "tr' = tr"
        | (log_ok) "print env n = None" and "f () tr = (r, tr')"
  using assms
  by (cases "print env n") (auto simp add: io_bind_def log_def raised_def)


lemma is_update_sheet: "is_update c \<Longrightarrow> is_sheet_call c"
  by (cases c) simp_all

lemma is_insert_row_sheet: "is_insert_row c \<Longrightarrow> is_sheet_call c"
  by (cases c) simp_all

lemma is_setup_quiet: "is_setup c \<Longrightarrow> \<not> is_update c \<and> \<not> is_insert_row c \<and> \<not> is_parse c"
  by (cases c) (simp_all add: is_setup_def)

lemma setup_extend:
  assumes "tr1 = tr @ ev1" and "\<forall>c\<in>set ev1. is_setup c"
    and "\<exists>ev. tr2 = tr1 @ ev \<and> (\<forall>c\<in>set ev. is_setup c)"
  obtains ev where "tr2 = tr @ ev" and "\<forall>c\<in>set ev. is_setup c"
proof -
  from assms(3) obtain ev2 where "tr2 = tr1 @ ev2" and "\<forall>c\<in>set ev2. is_setup c"
    by blast
  with assms(1,2) have "tr2 = tr @ (ev1 @ ev2)" and "\<forall>c\<in>set (ev1 @ ev2). is_setup c"
    by auto
  then show thesis by (rule that)
qed

lemma sheet_sync_cases:
  assumes run: "sheet_sync env vals filename tr = (r, tr')" and ne: "vals \<noteq> []"
  obtains (before_write) pre e where "\<forall>c\<in>set pre. is_setup c" and "r = Inl e" and "tr' = tr @ pre"
    | (write_failed) pre e where "\<forall>c\<in>set pre. is_setup c" and "update_data env = Some e"
        and "r = Inl e" and "tr' = tr @ pre @ [Update START_CELL (map (take MAX_COLS) vals)]"
    | (written) pre where "\<forall>c\<in>set pre. is_setup c" and "update_data env = None"
        and "annotate env filename (tr @ pre @ [Update START_CELL (map (take MAX_COLS) vals)]) = (r, tr')"
proof -
  have open_setup: "\<forall>c\<in>set [OpenByKey]. is_setup c"
    by (simp add: is_setup_def)
  from run [unfolded sheet_sync_def] show thesis
  proof (cases rule: io_bind_cases)
    case (raise e)
    then have "tr' = tr @ [OpenByKey]" by (simp add: io_call_eq)
    with raise(2) open_setup show thesis
      by (intro before_write [of "[OpenByKey]" e])
  next
    case (ok u tr1)
    then have tr1: "tr1 = tr @ [OpenByKey]" by (simp add: io_call_eq)
    from ok(2) show thesis
    proof (cases rule: io_bind_cases)
      case (raise e)
      from setup_extend [OF tr1 open_setup get_worksheet_trace [OF raise(1)]]
      obtain ev where "tr' = tr @ ev" and "\<forall>c\<in>set ev. is_setup c" .
      with raise(2) show thesis
        by (intro before_write [of ev e])
    next
      case (ok row_count tr2)
      from setup_extend [OF tr1 open_setup get_worksheet_trace [OF ok(1)]]
      obtain ev2 where tr2: "tr2 = tr @ ev2" and s2: "\<forall>c\<in>set ev2. is_setup c" .
      from ok(2) show thesis
      proof (cases rule: log_bind_cases)
        case (log_raise e)
        with tr2 s2 show thesis
          by (intro before_write [of ev2 e]) simp_all
      next
        case log_ok
        from log_ok(2) show thesis
        proof (cases rule: io_bind_cases)
          case (raise e)
          from setup_extend [OF tr2 s2 clear_window_trace [OF raise(1)]]
          obtain ev where "tr' = tr @ ev" and "\<forall>c\<in>set ev. is_setup c" .
          with raise(2) show thesis
            by (intro before_write [of ev e])
        next
          case (ok u3 tr3)
          from setup_extend [OF tr2 s2 clear_window_trace [OF ok(1)]]
          obtain ev3 where tr3: "tr3 = tr @ ev3" and s3: "\<forall>c\<in>set ev3. is_setup c" .
          from ok(2) show thesis
          proof (cases rule: io_bind_cases)
            case (raise e)
            from setup_extend [OF tr3 s3 ensure_rows_trace [OF raise(1)]]
            obtain ev where "tr' = tr @ ev" and "\<forall>c\<in>set ev. is_setup c" .
            with raise(2) show thesis
              by (intro before_write [of ev e])
          next
            case (ok u4 tr4)
            from setup_extend [OF tr3 s3 ensure_rows_trace [OF ok(1)]]
            obtain pre where tr4: "tr4 = tr @ pre" and s4: "\<forall>c\<in>set pre. is_setup c" .
            from ok(2) show thesis
            proof (cases rule: log_bind_cases)
              case (log_raise e)
              with tr4 s4 show thesis
                by (intro before_write [of pre e]) simp_all
            next
              case log_ok
              from log_ok(2) show thesis
              proof (cases rule: io_bind_cases)
                case (raise e)
                with tr4 ne have "update_data env = Some e"
                  and "tr' = tr @ pre @ [Update START_CELL (map (take MAX_COLS) vals)]"
                  by (simp_all add: paste_data_eq raised_Inl)
                with s4 raise(2) show thesis
                  by (intro write_failed [of pre e])
              next
                case (ok u5 tr5)
                with tr4 ne have "update_data env = None"
                  and "annotate env filename (tr @ pre @ [Update START_CELL (map (take MAX_COLS) vals)]) = (r, tr')"
                  by (simp_all add: paste_data_eq raised_Inr)
                with s4 show thesis
                  by (intro written [of pre])
              qed
            qed
          qed
        qed
      qed
    qed
  qed
qed

lemma load_df_trace:
  "load_df_from_bytes env filename data_bytes tr = (r, tr') \<Longrightarrow>
     \<exists>ev. tr' = tr @ ev \<and> (\<forall>c\<in>set ev. \<not> is_sheet_call c)"
  by (auto simp add: load_df_from_bytes_def first_parse_def io_call_def io_bind_def log_def
      io_raise_def Let_def split: sum.splits prod.splits if_splits)

lemma fetch_and_sync_cases:
  assumes run: "fetch_and_sync env cs tr0 = (r, tr)"
  obtains (empty) "cs = []" and "print env 112 = None" and "r = raised (ftp_quit env)"
        and "tr = tr0 @ [FtpQuit]"
    | (early) ev e where "r = Inl e" and "tr = tr0 @ ev"
        and "\<forall>c\<in>set ev. \<not> is_sheet_call c"
    | (sync) newest ev df where "cs \<noteq> []" and "select_newest cs = Inr newest"
        and "\<forall>c\<in>set ev. \<not> is_sheet_call c" and "FtpRetr (c_name newest) \<in> set ev"
        and "sheet_sync env (build_values (normalize_df df)) (c_name newest) (tr0 @ ev) = (r, tr)"
proof (cases "cs = []")
  case True
  with run have "io_bind (log env 112) (\<lambda>_. io_call FtpQuit (raised (ftp_quit env))) tr0 = (r, tr)"
    by (simp add: fetch_and_sync_def)
  then show thesis
  proof (cases rule: log_bind_cases)
    case (log_raise e)
    then show thesis
      by (intro early [of e "[]"]) simp_all
  next
    case log_ok
    with True show thesis
      by (intro empty) (simp_all add: io_call_eq)
  qed
next
  case False
  with run have run': "io_bind (\<lambda>tr. (select_newest cs, tr)) (\<lambda>newest.
        io_bind (log env 122) (\<lambda>_.
        io_bind (io_call (FtpRetr (c_name newest)) (retrbinary env (c_name newest))) (\<lambda>data_bytes.
        io_bind (io_call FtpQuit (raised (ftp_quit env))) (\<lambda>_.
        io_bind (load_df_from_bytes env (c_name newest) data_bytes) (\<lambda>df.
        io_bind (log env 130) (\<lambda>_.
        io_bind (if MAX_COLS < length (df_columns df) then log env 133 else io_return ()) (\<lambda>_.
        sheet_sync env (build_values (normalize_df df)) (c_name newest)))))))) tr0 = (r, tr)"
    by (simp add: fetch_and_sync_def)
  then show thesis
  proof (cases rule: io_bind_cases)
    case (raise e)
    then show thesis
      by (intro early [of e "[]"]) simp_all
  next
    case (ok newest tr1)
    then have sel: "select_newest cs = Inr newest" and tr1: "tr1 = tr0" by simp_all
    from ok(2) show thesis
    proof (cases rule: log_bind_cases)
      case (log_raise e)
      with tr1 show thesis
        by (intro early [of e "[]"]) simp_all
    next
      case log_ok
      from log_ok(2) show thesis
      proof (cases rule: io_bind_cases)
        case (raise e)
        with tr1 show thesis
          by (intro early [of e "[FtpRetr (c_name newest)]"]) (simp_all add: io_call_eq)
      next
        case (ok data_bytes tr2)
        then have tr2: "tr2 = tr0 @ [FtpRetr (c_name newest)]"
          using tr1 by (simp add: io_call_eq)
        from ok(2) show thesis
        proof (cases rule: io_bind_cases)
          case (raise e)
          with tr2 show thesis
            by (intro early [of e "[FtpRetr (c_name newest), FtpQuit]"]) (simp_all add: io_call_eq)
        next
          case (ok u tr3)
          then have tr3: "tr3 = tr0 @ [FtpRetr (c_name newest), FtpQuit]"
            using tr2 by (simp add: io_call_eq)
          from ok(2) show thesis
          proof (cases rule: io_bind_cases)
            case (raise e)
            from load_df_trace [OF raise(1)] tr3 obtain ev
              where "tr = tr0 @ ([FtpRetr (c_name newest), FtpQuit] @ ev)"
                "\<forall>c\<in>set ([FtpRetr (c_name newest), FtpQuit] @ ev). \<not> is_sheet_call c"
              by auto
            with raise(2) show thesis
              by (intro early [of e "[FtpRetr (c_name newest), FtpQuit] @ ev"])
          next
            case (ok df tr4)
            from load_df_trace [OF ok(1)] tr3 obtain ev
              where tr4: "tr4 = tr0 @ ([FtpRetr (c_name newest), FtpQuit] @ ev)"
                and quiet: "\<forall>c\<in>set ([FtpRetr (c_name newest), FtpQuit] @ ev). \<not> is_sheet_call c"
              by auto
            from ok(2) show thesis
            proof (cases rule: log_bind_cases)
              case (log_raise e)
              with tr4 quiet show thesis
                by (intro early [of e "[FtpRetr (c_name newest), FtpQuit] @ ev"]) simp_all
            next
              case log_ok
              from log_ok(2) show thesis
              proof (cases rule: io_bind_cases)
                case (raise e)
                then have "tr = tr4"
                  by (auto simp add: log_eq io_return_def split: if_splits)
                with raise(2) tr4 quiet show thesis
                  by (intro early [of e "[FtpRetr (c_name newest), FtpQuit] @ ev"]) simp_all
              next
                case (ok u5 tr5)
                then have "tr5 = tr4"
                  by (auto simp add: log_eq io_return_def split: if_splits)
                with False sel ok(2) tr4 quiet show thesis
                  by (intro sync [of newest "[FtpRetr (c_name newest), FtpQuit] @ ev" df]) simp_all
              qed
            qed
          qed
        qed
      qed
    qed
  qed
qed

lemma main_try_cases:
  assumes run: "main_try env [] = (r, tr)"
  obtains (listing) e where "r = Inl e" and "\<forall>c\<in>set tr. \<not> is_sheet_call c \<and> \<not> is_parse c"
    | (listed) names cs tr0 where "print env 85 = None" and "ftp_names env = Inr names"
        and "collect env names [] [FtpList] = (Inr cs, tr0)"
        and "\<forall>c\<in>set tr0. \<not> is_sheet_call c \<and> \<not> is_parse c"
        and "fetch_and_sync env cs tr0 = (r, tr)"
proof -
  from run [unfolded main_try_def] show thesis
  proof (cases rule: log_bind_cases)
    case (log_raise e)
    then show thesis
      by (intro listing [of e]) simp_all
  next
    case log_ok
    from log_ok(2) show thesis
    proof (cases rule: io_bind_cases)
      case (raise e)
      then show thesis
        by (intro listing [of e]) (simp_all add: io_call_eq)
    next
      case (ok names tr1)
      then have names: "ftp_names env = Inr names" and tr1: "tr1 = [FtpList]"
        by (simp_all add: io_call_eq)
      from ok(2) show thesis
      proof (cases rule: io_bind_cases)
        case (raise e)
        with collect_trace [OF raise(1)] show thesis by auto
      next
        case (ok cs tr0)
        from collect_trace [OF ok(1)] tr1
        have "\<forall>c\<in>set tr0. \<not> is_sheet_call c \<and> \<not> is_parse c" by auto
        with names ok tr1 log_ok(1) show thesis
          by (intro listed [of names cs tr0]) simp_all
      qed
    qed
  qed
qed

lemma main_except_eq:
  "main_except env exc tr =
     ((case print env 179 of
         Some e \<Rightarrow> Inl e
       | None \<Rightarrow> (case print env 180 of Some e \<Rightarrow> Inl e | None \<Rightarrow> Inl exc)), tr)"
  by (simp add: main_except_def io_bind_def log_def io_raise_def raised_def split: option.splits)

lemma main_cases:
  assumes run: "main env = (r, tr)"
  obtains (returned) "main_try env [] = (Inr (), tr)" and "r = Inr ()"
    | (raised_exn) exc e where "main_try env [] = (Inl exc, tr)" and "r = Inl e"
        and "print env 179 = None \<and> print env 180 = None \<longrightarrow> e = exc"
proof (cases "main_try env []")
  case (Pair r0 tr0)
  show thesis
  proof (cases r0)
    case (Inr u)
    with Pair run show thesis
      by (intro returned) (simp_all add: main_def)
  next
    case (Inl exc)
    with Pair run have "r = (case print env 179 of
         Some e \<Rightarrow> Inl e
       | None \<Rightarrow> (case print env 180 of Some e \<Rightarrow> Inl e | None \<Rightarrow> Inl exc))" and "tr = tr0"
      by (simp_all add: main_def main_except_eq)
    then obtain e where "r = Inl e" and "print env 179 = None \<and> print env 180 = None \<longrightarrow> e = exc"
      by (cases "print env 179"; cases "print env 180") simp_all
    with Pair Inl \<open>tr = tr0\<close> show thesis
      by (intro raised_exn [of exc e]) simp_all
  qed
qed


subsection \<open>Runs of \<open>main\<close>\<close>

lemma build_values_not_Nil: "build_values df \<noteq> []"
  by (simp add: build_values_def)

lemma main_try_write_failure:
  assumes run: "main_try env [] = (r, tr)"
    and attempted: "\<exists>c\<in>set tr. is_update c"
    and fails: "update_data env = Some e"
  shows "r = Inl e \<and> is_update (last tr)
       \<and> (\<forall>c\<in>set (butlast tr). \<not> is_update c)
       \<and> (\<forall>c\<in>set tr. \<not> is_insert_row c)"
  using run
proof (cases rule: main_try_cases)
  case (listing e')
  with attempted is_update_sheet show ?thesis by blast
next
  case (listed names cs tr0)
  from listed(4) have q0: "\<forall>c\<in>set tr0. \<not> is_update c \<and> \<not> is_insert_row c"
    using is_update_sheet is_insert_row_sheet by blast
  from listed(5) show ?thesis
  proof (cases rule: fetch_and_sync_cases)
    case empty
    with attempted q0 show ?thesis by auto
  next
    case (early ev e')
    from early(3) have "\<forall>c\<in>set ev. \<not> is_update c"
      using is_update_sheet by blast
    with attempted q0 early(2) show ?thesis by auto
  next
    case (sync newest ev df)
    from sync(3) have q1: "\<forall>c\<in>set ev. \<not> is_update c \<and> \<not> is_insert_row c"
      using is_update_sheet is_insert_row_sheet by blast
    from sync(5) build_values_not_Nil show ?thesis
    proof (cases rule: sheet_sync_cases)
      case (before_write pre e')
      from before_write(1) have "\<forall>c\<in>set pre. \<not> is_update c"
        using is_setup_quiet by blast
      with attempted q0 q1 before_write(3) show ?thesis by auto
    next
      case (write_failed pre e')
      from write_failed(1) have q2: "\<forall>c\<in>set pre. \<not> is_update c \<and> \<not> is_insert_row c"
        using is_setup_quiet by blast
      let ?w = "Update START_CELL (map (take MAX_COLS) (build_values (normalize_df df)))"
      from write_failed(4) have tr: "tr = (tr0 @ ev @ pre) @ [?w]" by simp
      have a: "r = Inl e" using write_failed(2,3) fails by simp
      have c: "is_update (last tr)" unfolding tr by simp
      have d: "\<forall>c\<in>set (butlast tr). \<not> is_update c"
        unfolding tr using q0 q1 q2 by (simp only: butlast_snoc) auto
      have e: "\<forall>c\<in>set tr. \<not> is_insert_row c"
        unfolding tr using q0 q1 q2 by auto
      from a c d e show ?thesis by simp
    next
      case (written pre)
      with fails show ?thesis by simp
    qed
  qed
qed

text \<open>
  Claim C3. In a run where the clear of step 1 was made and completed (by \<open>batch_clear\<close> or
  by its fallback), and the data write of line 163 was made and raised \<open>e\<close>: the run ends
  with an exception and a non-zero exit status, and the exception is \<open>e\<close> itself when the
  two \<open>log\<close> calls of the \<open>except\<close> clause do not raise; the failing write is the last call
  of the run to a collaborator and the only \<open>update\<close> call in it, and no \<open>insert_row\<close> call
  was made. So neither the blank row nor the two annotation writes happened.
\<close>

theorem write_failure_stops_run:
  assumes run: "main env = (r, tr)"
    and cleared: "BatchClear A1Z_RANGE \<in> set tr \<and> (batch_clear env = None \<or> values_clear env = None)"
    and attempted: "\<exists>c\<in>set tr. is_update c"
    and fails: "update_data env = Some e"
  shows "(\<exists>e'. r = Inl e')
       \<and> (print env 179 = None \<and> print env 180 = None \<longrightarrow> r = Inl e)
       \<and> exit_status r \<noteq> 0 \<and> is_update (last tr)
       \<and> (\<forall>c\<in>set (butlast tr). \<not> is_update c)
       \<and> (\<forall>c\<in>set tr. \<not> is_insert_row c)"
  using run
proof (cases rule: main_cases)
  case returned
  from main_try_write_failure [OF returned(1) attempted fails] show ?thesis by simp
next
  case (raised_exn exc e')
  from main_try_write_failure [OF raised_exn(1) attempted fails]
  have exc: "exc = e" and rest: "is_update (last tr)
       \<and> (\<forall>c\<in>set (butlast tr). \<not> is_update c)
       \<and> (\<forall>c\<in>set tr. \<not> is_insert_row c)"
    by simp_all
  have a: "\<exists>e'. r = Inl e'" using raised_exn(2) by simp
  have b: "print env 179 = None \<and> print env 180 = None \<longrightarrow> r = Inl e"
    using raised_exn(2,3) exc by simp
  have c: "exit_status r \<noteq> 0" using raised_exn(2) by (simp add: exit_status_def)
  from a b c rest show ?thesis by simp
qed

lemma main_write_fail_env:
  "main write_fail_env =
     (Inl (Error ''quota exceeded''),
      [FtpList, FtpSize ''report_2024.csv'', FtpMdtm ''report_2024.csv'',
       FtpSize ''report_2025.csv'', FtpMdtm ''report_2025.csv'',
       FtpRetr ''report_2025.csv'', FtpQuit, ReadCsv, OpenByKey,
       GetWorksheet ''OOCL_import'', BatchClear ''A1:Z'', AddRows 3,
       Update ''A1''
        [[Text ''a'', Text ''b''], [Number 1, Text []], [Text [], Text ''x''],
         [Text [], Number 2]]])"
  by code_simp

theorem write_failure_stops_run_witness:
  "fst (main write_fail_env) = Inl (Error ''quota exceeded'')
   \<and> exit_status (fst (main write_fail_env)) \<noteq> 0
   \<and> is_update (last (snd (main write_fail_env)))"
proof -
  let ?r = "fst (main write_fail_env)" and ?tr = "snd (main write_fail_env)"
  have run: "main write_fail_env = (?r, ?tr)" by simp
  have "BatchClear A1Z_RANGE \<in> set ?tr"
    by (simp add: main_write_fail_env A1Z_RANGE_def)
  moreover have "batch_clear write_fail_env = None"
    by (simp add: write_fail_env_def sample_env_def)
  ultimately have cleared: "BatchClear A1Z_RANGE \<in> set ?tr
      \<and> (batch_clear write_fail_env = None \<or> values_clear write_fail_env = None)"
    by simp
  have attempted: "\<exists>c\<in>set ?tr. is_update c"
    by (simp add: main_write_fail_env)
  have fails: "update_data write_fail_env = Some (Error ''quota exceeded'')"
    by (simp add: write_fail_env_def)
  have logs: "print write_fail_env 179 = None \<and> print write_fail_env 180 = None"
    by (simp add: write_fail_env_def sample_env_def)
  from write_failure_stops_run [OF run cleared attempted fails] logs show ?thesis
    by blast
qed






text \<open>
  Claim C9, as amended. When the run got past its first message and the loop of lines 97 to
  109 leaves no candidate, the run makes no parse call and no sheet call. When neither the
  \<open>log\<close> call of line 112 nor \<open>ftp.quit()\<close> at line 113 raises, the run returns with
  \<open>ftp.quit()\<close> as its last call and the exit status is 0; when either raises, the exit
  status is not 0.
\<close>

theorem no_candidates_noop:
  assumes started: "print env 85 = None"
    and names: "ftp_names env = Inr names"
    and none: "fst (collect env names [] [FtpList]) = Inr []"
  shows "(\<forall>c\<in>set (snd (main env)). \<not> is_parse c \<and> \<not> is_sheet_call c)
       \<and> (print env 112 = None \<and> ftp_quit env = None \<longrightarrow>
            fst (main env) = Inr () \<and> exit_status (fst (main env)) = 0
            \<and> last (snd (main env)) = FtpQuit)
       \<and> (print env 112 \<noteq> None \<or> ftp_quit env \<noteq> None \<longrightarrow>
            exit_status (fst (main env)) \<noteq> 0)"
proof -
  obtain tr0 where col: "collect env names [] [FtpList] = (Inr [], tr0)"
    using none by (cases "collect env names [] [FtpList]") simp
  from collect_trace [OF col]
  have quiet: "\<forall>c\<in>set tr0. \<not> is_sheet_call c \<and> \<not> is_parse c" by auto
  have body: "main_try env [] =
      (case print env 112 of
         Some e \<Rightarrow> (Inl e, tr0)
       | None \<Rightarrow> (raised (ftp_quit env), tr0 @ [FtpQuit]))"
    by (simp add: main_try_def io_bind_def io_call_def log_def raised_def started names col
        fetch_and_sync_def split: option.splits)
  obtain r tr where run: "main env = (r, tr)"
    by (cases "main env")
  from run have facts: "(\<forall>c\<in>set tr. \<not> is_parse c \<and> \<not> is_sheet_call c)
       \<and> (print env 112 = None \<and> ftp_quit env = None \<longrightarrow>
            r = Inr () \<and> exit_status r = 0 \<and> last tr = FtpQuit)
       \<and> (print env 112 \<noteq> None \<or> ftp_quit env \<noteq> None \<longrightarrow> exit_status r \<noteq> 0)"
  proof (cases rule: main_cases)
    case returned
    with body quiet show ?thesis
      by (cases "print env 112"; cases "ftp_quit env")
        (auto simp add: raised_def exit_status_def)
  next
    case (raised_exn exc e)
    with body quiet show ?thesis
      by (cases "print env 112"; cases "ftp_quit env")
        (auto simp add: raised_def exit_status_def)
  qed
  with run show ?thesis by (auto simp add: exit_status_def)
qed

lemma main_no_files_env:
  "main no_files_env = (Inr (), [FtpList, FtpQuit])"
  by code_simp

theorem no_candidates_noop_witness:
  "snd (main no_files_env) = [FtpList, FtpQuit]
   \<and> last (snd (main no_files_env)) = FtpQuit
   \<and> exit_status (fst (main no_files_env)) = 0"
proof -
  have names: "ftp_names no_files_env = Inr [''.'', ''..'', ''notes.md'']"
    by (simp add: no_files_env_def)
  have none: "fst (collect no_files_env [''.'', ''..'', ''notes.md''] [] [FtpList]) = Inr []"
    by code_simp
  have started: "print no_files_env 85 = None"
    by (simp add: no_files_env_def sample_env_def)
  have quit: "print no_files_env 112 = None \<and> ftp_quit no_files_env = None"
    by (simp add: no_files_env_def sample_env_def)
  from no_candidates_noop [OF started names none] quit
  have "last (snd (main no_files_env)) = FtpQuit \<and> exit_status (fst (main no_files_env)) = 0"
    by blast
  then show ?thesis
    by (simp add: main_no_files_env)
qed

text \<open>
  The claim as first stated fails when the server refuses the \<open>QUIT\<close>: the exception
  of \<open>ftp.quit()\<close> at line 113 reaches the \<open>except\<close> clause of line 178, is raised again,
  and the process ends with status 1.
\<close>

theorem no_candidates_noop_counterexample:
  "ftp_names quit_fail_env = Inr [''.'', ''..'', ''notes.md'']
   \<and> fst (collect quit_fail_env [''.'', ''..'', ''notes.md''] [] [FtpList]) = Inr []
   \<and> main quit_fail_env = (Inl (Error ''421 timeout''), [FtpList, FtpQuit])
   \<and> exit_status (fst (main quit_fail_env)) = 1"
  by code_simp

end
